theory Spec2Isabelle
  imports Main
begin

section \<open>Data model of \<^verbatim>\<open>board.py\<close>\<close>

text \<open>
  Every \<^verbatim>\<open>raise ValueError(...)\<close> of the class is one constructor, named after the
  condition it reports:
  \<^item> \<open>OutOfRange\<close>: "Index must be between 0 and 80." / "Subgrid index must be between 0
    and 8." / "Subgrid cell index must be between 0 and 8.";
  \<^item> \<open>InvalidPlayer\<close>: "Cell value must be 0 (empty), 1 (Player 1), or 2 (Player 2).";
  \<^item> \<open>CellOccupiedOrWrongSubgrid\<close>: "Invalid move: Cell ... is already occupied.";
  \<^item> \<open>InvalidSubgridShape\<close>: "Subgrid must be a 3x3 numpy array";
  \<^item> \<open>BroadcastError\<close>: the ValueError numpy raises when a 3x3 array is assigned to a
    slice of another shape;
  \<^item> \<open>IndexError\<close>: the IndexError of numpy and of Python lists for an index out of bounds;
  \<^item> \<open>OverflowError\<close>: the OverflowError numpy raises when a Python integer outside the
    range of the element type is stored into an integer array.
\<close>

datatype error =
    OutOfRange
  | InvalidPlayer
  | CellOccupiedOrWrongSubgrid
  | InvalidSubgridShape
  | BroadcastError
  | IndexError
  | OverflowError

text \<open>
  The fields of class \<^verbatim>\<open>Board\<close>. The numpy array \<^verbatim>\<open>self.board\<close> is a list of rows;
  its element type is \<^verbatim>\<open>dtype=int\<close>, the signed 64-bit integers, and a cell is the integer
  its element denotes: every store into the array converts to that type (\<open>np_set2\<close> for
  a Python integer, \<open>to_int64\<close> for the elements of an array).
  \<^verbatim>\<open>self.next_subgrid\<close> is \<^verbatim>\<open>None\<close> or an integer.
\<close>

record Board =
  board :: "int list list"
  subgrid_wins :: "int list"
  overall_winner :: int
  next_subgrid :: "int option"

text \<open>\<^verbatim>\<open>__init__\<close>: \<^verbatim>\<open>np.zeros((9, 9))\<close>, \<^verbatim>\<open>[0] * 9\<close>, \<^verbatim>\<open>0\<close>, \<^verbatim>\<open>None\<close>.\<close>

definition init :: Board where
  "init = \<lparr> board = replicate 9 (replicate 9 0),
            subgrid_wins = replicate 9 0,
            overall_winner = 0,
            next_subgrid = None \<rparr>"

text \<open>
  The shape the constructor establishes and no method changes: a 9x9 array and a list
  of nine statuses.
\<close>

definition wf_grid :: "nat \<Rightarrow> int list list \<Rightarrow> bool" where
  "wf_grid n a \<longleftrightarrow> length a = n \<and> list_all (\<lambda>r. length r = n) a"

definition wf_board :: "Board \<Rightarrow> bool" where
  "wf_board b \<longleftrightarrow> wf_grid 9 (board b) \<and> length (subgrid_wins b) = 9"

section \<open>Indexing as numpy and Python do it\<close>

text \<open>
  An index \<open>i\<close> into an axis of length \<open>n\<close>: \<open>0 \<le> i < n\<close> is itself, \<open>-n \<le> i < 0\<close>
  counts from the end, anything else raises IndexError.
\<close>

definition np_index :: "nat \<Rightarrow> int \<Rightarrow> error + nat" where
  "np_index n i =
     (if 0 \<le> i \<and> i < int n then Inr (nat i)
      else if - int n \<le> i \<and> i < 0 then Inr (nat (i + int n))
      else Inl IndexError)"

text \<open>
  \<^verbatim>\<open>a[i, j]\<close> read and \<^verbatim>\<open>a[i, j] = v\<close> on a two-dimensional array of signed 64-bit
  integers. The value stored is a Python integer: one outside \<open>[-2^63, 2^63)\<close> raises
  OverflowError.
\<close>

definition np_get2 :: "int list list \<Rightarrow> int \<Rightarrow> int \<Rightarrow> error + int" where
  "np_get2 a i j =
     (case np_index (length a) i of
        Inl e \<Rightarrow> Inl e
      | Inr r \<Rightarrow>
          (case np_index (length (a ! r)) j of
             Inl e \<Rightarrow> Inl e
           | Inr c \<Rightarrow> Inr (a ! r ! c)))"

definition np_set2 :: "int list list \<Rightarrow> int \<Rightarrow> int \<Rightarrow> int \<Rightarrow> error + int list list" where
  "np_set2 a i j v =
     (case np_index (length a) i of
        Inl e \<Rightarrow> Inl e
      | Inr r \<Rightarrow>
          (case np_index (length (a ! r)) j of
             Inl e \<Rightarrow> Inl e
           | Inr c \<Rightarrow>
               if - (2 ^ 63) \<le> v \<and> v < 2 ^ 63 then Inr (a[r := (a ! r)[c := v]])
               else Inl OverflowError))"

text \<open>\<^verbatim>\<open>xs[i] = v\<close> on a Python list.\<close>

definition py_list_set :: "int list \<Rightarrow> int \<Rightarrow> int \<Rightarrow> error + int list" where
  "py_list_set xs i v =
     (case np_index (length xs) i of
        Inl e \<Rightarrow> Inl e
      | Inr k \<Rightarrow> Inr (xs[k := v]))"

text \<open>
  A slice \<^verbatim>\<open>xs[start:stop]\<close> of an axis of length \<open>n\<close>: negative bounds count from the
  end, both bounds are clamped to \<open>[0, n]\<close>, and the slice is empty when the upper bound
  is not above the lower one. Slicing never raises.
\<close>

definition slice_bound :: "nat \<Rightarrow> int \<Rightarrow> nat" where
  "slice_bound n k = (if k < 0 then nat (max (k + int n) 0) else min (nat k) n)"

definition np_slice :: "'a list \<Rightarrow> int \<Rightarrow> int \<Rightarrow> 'a list" where
  "np_slice xs start stop =
     (let lo = slice_bound (length xs) start; hi = slice_bound (length xs) stop
      in take (hi - lo) (drop lo xs))"

section \<open>The methods\<close>

text \<open>\<^verbatim>\<open>index_to_position\<close>: Python's \<^verbatim>\<open>//\<close> and \<^verbatim>\<open>%\<close> are floor division and its
  remainder, as \<open>div\<close> and \<open>mod\<close> on \<open>int\<close>.\<close>

definition index_to_position :: "int \<Rightarrow> int \<Rightarrow> int \<times> int" where
  "index_to_position index sz = (index div sz, index mod sz)"

text \<open>\<^verbatim>\<open>get_subgrid\<close>: \<^verbatim>\<open>self.board[row_start:row_start + 3, col_start:col_start + 3]\<close>.\<close>

definition get_subgrid :: "Board \<Rightarrow> int \<Rightarrow> int list list" where
  "get_subgrid b subgrid_index =
     (let row_start = (subgrid_index div 3) * 3;
          col_start = (subgrid_index mod 3) * 3
      in map (\<lambda>r. np_slice r col_start (col_start + 3))
             (np_slice (board b) row_start (row_start + 3)))"






text \<open>
  \<^verbatim>\<open>is_valid_move\<close>. It returns \<^verbatim>\<open>False\<close> before it reads the cell when the subgrid is
  not the forced one; the read \<^verbatim>\<open>self.board[row, col]\<close> raises for a position outside
  the array.
\<close>

definition is_valid_move :: "Board \<Rightarrow> int \<Rightarrow> int \<Rightarrow> error + bool" where
  "is_valid_move b row col =
     (case next_subgrid b of
        Some forced \<Rightarrow>
          (let subgrid_row = row div 3; subgrid_col = col div 3
           in if subgrid_row * 3 + subgrid_col \<noteq> forced then Inr False
              else (case np_get2 (board b) row col of
                      Inl e \<Rightarrow> Inl e | Inr x \<Rightarrow> Inr (x = 0)))
      | None \<Rightarrow>
          (case np_get2 (board b) row col of
             Inl e \<Rightarrow> Inl e | Inr x \<Rightarrow> Inr (x = 0)))"

text \<open>
  \<^verbatim>\<open>all(a[i, j] == player for (i, j) in cells)\<close>: the generator reads the cells in
  order, stops at the first that differs, and a read out of bounds raises.
\<close>

fun all_eq :: "int list list \<Rightarrow> (int \<times> int) list \<Rightarrow> int \<Rightarrow> error + bool" where
  "all_eq a [] player = Inr True"
| "all_eq a ((i, j) # cells) player =
     (case np_get2 a i j of
        Inl e \<Rightarrow> Inl e
      | Inr x \<Rightarrow> if x = player then all_eq a cells player else Inr False)"

text \<open>The four kinds of line of an \<open>n\<close> by \<open>n\<close> array, as the generators enumerate them.\<close>

definition row_cells :: "nat \<Rightarrow> nat \<Rightarrow> (int \<times> int) list" where
  "row_cells n i = map (\<lambda>j. (int i, int j)) [0..<n]"

definition col_cells :: "nat \<Rightarrow> nat \<Rightarrow> (int \<times> int) list" where
  "col_cells n i = map (\<lambda>j. (int j, int i)) [0..<n]"

definition diag_cells :: "nat \<Rightarrow> (int \<times> int) list" where
  "diag_cells n = map (\<lambda>i. (int i, int i)) [0..<n]"

definition anti_cells :: "nat \<Rightarrow> (int \<times> int) list" where
  "anti_cells n = map (\<lambda>i. (int i, int n - 1 - int i)) [0..<n]"

text \<open>
  The loop \<^verbatim>\<open>for i in range(n)\<close> of \<^verbatim>\<open>check_winner\<close> and \<^verbatim>\<open>check_subgrid_winner\<close>: row
  \<open>i\<close>, then column \<open>i\<close>, then the next \<open>i\<close>.
\<close>

fun scan_rows_cols :: "int list list \<Rightarrow> nat \<Rightarrow> int \<Rightarrow> nat list \<Rightarrow> error + bool" where
  "scan_rows_cols a n player [] = Inr False"
| "scan_rows_cols a n player (i # is) =
     (case all_eq a (row_cells n i) player of
        Inl e \<Rightarrow> Inl e
      | Inr True \<Rightarrow> Inr True
      | Inr False \<Rightarrow>
          (case all_eq a (col_cells n i) player of
             Inl e \<Rightarrow> Inl e
           | Inr True \<Rightarrow> Inr True
           | Inr False \<Rightarrow> scan_rows_cols a n player is))"

text \<open>Rows and columns, then the main diagonal, then the anti-diagonal.\<close>

definition has_line :: "int list list \<Rightarrow> nat \<Rightarrow> int \<Rightarrow> error + bool" where
  "has_line a n player =
     (case scan_rows_cols a n player [0..<n] of
        Inl e \<Rightarrow> Inl e
      | Inr True \<Rightarrow> Inr True
      | Inr False \<Rightarrow>
          (case all_eq a (diag_cells n) player of
             Inl e \<Rightarrow> Inl e
           | Inr True \<Rightarrow> Inr True
           | Inr False \<Rightarrow> all_eq a (anti_cells n) player))"

text \<open>
  \<^verbatim>\<open>check_winner(player)\<close>: every branch that finds a line assigns
  \<^verbatim>\<open>self.overall_winner = player\<close> and returns \<^verbatim>\<open>True\<close>.
\<close>

definition check_winner :: "Board \<Rightarrow> int \<Rightarrow> (error + bool) \<times> Board" where
  "check_winner b player =
     (case has_line (board b) 9 player of
        Inl e \<Rightarrow> (Inl e, b)
      | Inr True \<Rightarrow> (Inr True, b\<lparr>overall_winner := player\<rparr>)
      | Inr False \<Rightarrow> (Inr False, b))"

text \<open>
  \<^verbatim>\<open>check_subgrid_winner\<close>: \<^verbatim>\<open>for player in [1, 2]\<close>, the first player with a line is
  written to \<^verbatim>\<open>self.subgrid_wins[subgrid_index]\<close> and returned.
\<close>

fun first_winner :: "int list list \<Rightarrow> int list \<Rightarrow> error + int option" where
  "first_winner a [] = Inr None"
| "first_winner a (player # players) =
     (case has_line a 3 player of
        Inl e \<Rightarrow> Inl e
      | Inr True \<Rightarrow> Inr (Some player)
      | Inr False \<Rightarrow> first_winner a players)"

definition check_subgrid_winner :: "Board \<Rightarrow> int \<Rightarrow> (error + int option) \<times> Board" where
  "check_subgrid_winner b subgrid_index =
     (case first_winner (get_subgrid b subgrid_index) [1, 2] of
        Inl e \<Rightarrow> (Inl e, b)
      | Inr None \<Rightarrow> (Inr None, b)
      | Inr (Some player) \<Rightarrow>
          (case py_list_set (subgrid_wins b) subgrid_index player of
             Inl e \<Rightarrow> (Inl e, b)
           | Inr w \<Rightarrow> (Inr (Some player), b\<lparr>subgrid_wins := w\<rparr>)))"

text \<open>\<^verbatim>\<open>is_subgrid_full\<close>: \<^verbatim>\<open>np.all(subgrid != 0)\<close>, true of an empty slice.\<close>

definition is_subgrid_full :: "Board \<Rightarrow> int \<Rightarrow> bool" where
  "is_subgrid_full b subgrid_index =
     list_all (list_all (\<lambda>x. x \<noteq> 0)) (get_subgrid b subgrid_index)"

text \<open>
  \<^verbatim>\<open>update_next_subgrid\<close>. \<open>(row mod 3) * 3 + col mod 3\<close> lies in \<open>[0, 9)\<close> for all integers,
  so the read \<^verbatim>\<open>self.subgrid_wins[next_subgrid]\<close> is in bounds.
\<close>

definition update_next_subgrid :: "Board \<Rightarrow> int \<Rightarrow> int \<Rightarrow> Board" where
  "update_next_subgrid b row col =
     (let nxt = (row mod 3) * 3 + (col mod 3)
      in if is_subgrid_full b nxt \<or> subgrid_wins b ! nat nxt \<noteq> 0
         then b\<lparr>next_subgrid := None\<rparr>
         else b\<lparr>next_subgrid := Some nxt\<rparr>)"

text \<open>
  \<^verbatim>\<open>update_cell\<close> and \<^verbatim>\<open>update_cell_in_subgrid\<close>, statement by statement. The result
  pairs what the call returns or raises with the state it leaves: an exception leaves the
  state reached at the statement that raised.
\<close>

definition update_cell :: "Board \<Rightarrow> int \<Rightarrow> int \<Rightarrow> (error + unit) \<times> Board" where
  "update_cell b index val =
     (if \<not> (0 \<le> index \<and> index < 81) then (Inl OutOfRange, b)
      else if val \<notin> {0, 1, 2} then (Inl InvalidPlayer, b)
      else
        let (row, col) = index_to_position index 9 in
        (case is_valid_move b row col of
           Inl e \<Rightarrow> (Inl e, b)
         | Inr False \<Rightarrow> (Inl CellOccupiedOrWrongSubgrid, b)
         | Inr True \<Rightarrow>
             (case np_set2 (board b) row col val of
                Inl e \<Rightarrow> (Inl e, b)
              | Inr a \<Rightarrow>
                  (let b1 = b\<lparr>board := a\<rparr>;
                       subgrid_index = (row div 3) * 3 + (col div 3)
                   in case check_subgrid_winner b1 subgrid_index of
                        (Inl e, b2) \<Rightarrow> (Inl e, b2)
                      | (Inr _, b2) \<Rightarrow>
                          (let b3 = update_next_subgrid b2 row col
                           in case check_winner b3 val of
                                (Inl e, b4) \<Rightarrow> (Inl e, b4)
                              | (Inr _, b4) \<Rightarrow> (Inr (), b4))))))"

definition update_cell_in_subgrid ::
    "Board \<Rightarrow> int \<Rightarrow> int \<Rightarrow> int \<Rightarrow> (error + unit) \<times> Board" where
  "update_cell_in_subgrid b subgrid_index subgrid_index_flat val =
     (if \<not> (0 \<le> subgrid_index \<and> subgrid_index < 9) then (Inl OutOfRange, b)
      else if \<not> (0 \<le> subgrid_index_flat \<and> subgrid_index_flat < 9) then (Inl OutOfRange, b)
      else if val \<notin> {0, 1, 2} then (Inl InvalidPlayer, b)
      else
        let (local_row, local_col) = index_to_position subgrid_index_flat 3;
            global_row = (subgrid_index div 3) * 3 + local_row;
            global_col = (subgrid_index mod 3) * 3 + local_col
        in
        (case is_valid_move b global_row global_col of
           Inl e \<Rightarrow> (Inl e, b)
         | Inr False \<Rightarrow> (Inl CellOccupiedOrWrongSubgrid, b)
         | Inr True \<Rightarrow>
             (case np_set2 (board b) global_row global_col val of
                Inl e \<Rightarrow> (Inl e, b)
              | Inr a \<Rightarrow>
                  (let b1 = b\<lparr>board := a\<rparr>
                   in case check_subgrid_winner b1 subgrid_index of
                        (Inl e, b2) \<Rightarrow> (Inl e, b2)
                      | (Inr _, b2) \<Rightarrow>
                          (let b3 = update_next_subgrid b2 global_row global_col
                           in case check_winner b3 val of
                                (Inl e, b4) \<Rightarrow> (Inl e, b4)
                              | (Inr _, b4) \<Rightarrow> (Inr (), b4))))))"

text \<open>
  A game: the calls a client makes, one after the other, from a given state. The run
  stops at the first call that raises.
\<close>

datatype move = Cell int int | InSubgrid int int int

fun apply_move :: "Board \<Rightarrow> move \<Rightarrow> (error + unit) \<times> Board" where
  "apply_move b (Cell index val) = update_cell b index val"
| "apply_move b (InSubgrid s f val) = update_cell_in_subgrid b s f val"

fun play :: "Board \<Rightarrow> move list \<Rightarrow> error + Board" where
  "play b [] = Inr b"
| "play b (m # ms) =
     (case apply_move b m of
        (Inl e, _) \<Rightarrow> Inl e
      | (Inr _, b') \<Rightarrow> play b' ms)"

section \<open>Lines, legality and the effects of a move, written out\<close>

text \<open>
  A player has a line in an \<open>n\<close> by \<open>n\<close> grid when all cells of one row, of one
  column, of the main diagonal or of the anti-diagonal hold the player's mark.
\<close>

definition wins :: "int list list \<Rightarrow> nat \<Rightarrow> int \<Rightarrow> bool" where
  "wins a n player \<longleftrightarrow>
     list_ex (\<lambda>i. list_all (\<lambda>j. a ! i ! j = player) [0..<n]) [0..<n] \<or>
     list_ex (\<lambda>i. list_all (\<lambda>j. a ! j ! i = player) [0..<n]) [0..<n] \<or>
     list_all (\<lambda>i. a ! i ! i = player) [0..<n] \<or>
     list_all (\<lambda>i. a ! i ! (n - 1 - i) = player) [0..<n]"

text \<open>The first qualifying player of a subgrid, PlayerOne before PlayerTwo.\<close>

definition first_qualifying :: "int list list \<Rightarrow> int option" where
  "first_qualifying a =
     (if wins a 3 1 then Some 1 else if wins a 3 2 then Some 2 else None)"

text \<open>
  Subgrid \<open>s\<close> covers the rows \<open>[sr * 3, sr * 3 + 3)\<close> and the columns
  \<open>[sc * 3, sc * 3 + 3)\<close> of the grid, where \<open>sr = s div 3\<close> and \<open>sc = s mod 3\<close>; it is full
  when none of its nine cells is Empty.
\<close>

definition no_empty_cell :: "Board \<Rightarrow> nat \<Rightarrow> bool" where
  "no_empty_cell b s \<longleftrightarrow>
     list_all (\<lambda>r. list_all (\<lambda>c. board b ! r ! c \<noteq> 0)
                            [(s mod 3) * 3 ..< (s mod 3) * 3 + 3])
              [(s div 3) * 3 ..< (s div 3) * 3 + 3]"

text \<open>
  Legality: the cell is Empty, and the constraint is Unconstrained or forces the cell's
  subgrid.
\<close>

definition legal :: "Board \<Rightarrow> int \<Rightarrow> int \<Rightarrow> bool" where
  "legal b row col \<longleftrightarrow>
     board b ! nat row ! nat col = 0 \<and>
     (next_subgrid b = None \<or> next_subgrid b = Some ((row div 3) * 3 + col div 3))"

text \<open>
  The four effects of a move at \<open>(row, col)\<close>, in order: the mark, the status of the
  cell's subgrid, the next constraint, the overall winner. The lemmas below show that a
  successful call of \<^verbatim>\<open>update_cell\<close> or \<^verbatim>\<open>update_cell_in_subgrid\<close> on a 9x9 board leaves
  this state.
\<close>

definition after_move :: "Board \<Rightarrow> int \<Rightarrow> int \<Rightarrow> int \<Rightarrow> Board" where
  "after_move b row col val =
     (let b1 = b\<lparr>board := (board b)[nat row := (board b ! nat row)[nat col := val]]\<rparr>;
          s = (row div 3) * 3 + col div 3;
          b2 = (case first_qualifying (get_subgrid b1 s) of
                  None \<Rightarrow> b1
                | Some p \<Rightarrow> b1\<lparr>subgrid_wins := (subgrid_wins b1)[nat s := p]\<rparr>);
          b3 = update_next_subgrid b2 row col
      in if wins (board b3) 9 val then b3\<lparr>overall_winner := val\<rparr> else b3)"

text \<open>
  The status the grid itself gives subgrid \<open>s\<close>: its first qualifying player, or 0. A
  board is status-consistent when every recorded status is that one.
\<close>

definition status_of_grid :: "Board \<Rightarrow> nat \<Rightarrow> int" where
  "status_of_grid b s =
     (case first_qualifying (get_subgrid b (int s)) of None \<Rightarrow> 0 | Some p \<Rightarrow> p)"

definition status_consistent :: "Board \<Rightarrow> bool" where
  "status_consistent b \<longleftrightarrow> list_all (\<lambda>s. subgrid_wins b ! s = status_of_grid b s) [0..<9]"

text \<open>The value a call writes.\<close>

fun move_value :: "move \<Rightarrow> int" where
  "move_value (Cell index val) = val"
| "move_value (InSubgrid s f val) = val"

section \<open>Four games\<close>

text \<open>
  \<open>after_opening\<close>: PlayerOne has played flat index 0. \<open>subgrid_race\<close>: alternating legal
  play in which PlayerTwo completes the top row of subgrid 0 and PlayerOne holds two cells
  of its middle row. \<open>line_race\<close>: alternating legal play in which PlayerOne fills row 1
  of the grid and PlayerTwo all of row 3 but its last cell. \<open>crowded_corner\<close>: alternating
  legal play that fills subgrid 0 without a line in it and leaves PlayerOne to move in
  subgrid 8. \<open>huge_subgrid\<close>: a 3x3 array of unsigned 64-bit integers that holds \<open>2^63\<close>.
\<close>

definition zeros :: "int list" where "zeros = [0, 0, 0, 0, 0, 0, 0, 0, 0]"

definition after_opening :: Board where
  "after_opening = \<lparr> board = [ [1, 0, 0, 0, 0, 0, 0, 0, 0], zeros, zeros, zeros, zeros, zeros, zeros, zeros, zeros],
               subgrid_wins = zeros, overall_winner = 0, next_subgrid = Some 0 \<rparr>"

definition subgrid_race :: "move list" where
  "subgrid_race = [Cell 30 1, Cell 0 2, Cell 9 1, Cell 28 2, Cell 3 1, Cell 2 2, Cell 6 1,
                   Cell 1 2, Cell 12 1, Cell 27 2, Cell 11 1, Cell 33 2]"

definition subgrid_race_end :: Board where
  "subgrid_race_end =
     \<lparr> board = [ [2, 2, 2, 1, 0, 0, 1, 0, 0],
                [1, 0, 1, 1, 0, 0, 0, 0, 0],
                zeros,
                [2, 2, 0, 1, 0, 0, 2, 0, 0],
                zeros, zeros, zeros, zeros, zeros],
       subgrid_wins = [2, 0, 0, 0, 0, 0, 0, 0, 0], overall_winner = 0, next_subgrid = None \<rparr>"

definition line_race :: "move list" where
  "line_race = [Cell 9 1, Cell 27 2, Cell 10 1, Cell 30 2, Cell 11 1, Cell 33 2, Cell 12 1,
                Cell 28 2, Cell 13 1, Cell 31 2, Cell 14 1, Cell 34 2, Cell 15 1, Cell 29 2,
                Cell 16 1, Cell 32 2, Cell 17 1]"

definition line_race_end :: Board where
  "line_race_end =
     \<lparr> board = [zeros,
                [1, 1, 1, 1, 1, 1, 1, 1, 1],
                zeros,
                [2, 2, 2, 2, 2, 2, 2, 2, 0],
                zeros, zeros, zeros, zeros, zeros],
       subgrid_wins = [1, 1, 1, 2, 2, 0, 0, 0, 0], overall_winner = 1, next_subgrid = Some 5 \<rparr>"

definition crowded_corner :: "move list" where
  "crowded_corner = [Cell 0 1, Cell 1 2, Cell 3 1, Cell 2 2, Cell 6 1, Cell 9 2, Cell 27 1,
                     Cell 10 2, Cell 30 1, Cell 20 2, Cell 61 1, Cell 4 2, Cell 5 1, Cell 7 2,
                     Cell 12 1, Cell 28 2, Cell 13 1, Cell 31 2, Cell 22 1, Cell 57 2,
                     Cell 11 1, Cell 33 2, Cell 18 1, Cell 54 2, Cell 19 1, Cell 77 2]"

definition crowded_corner_end :: Board where
  "crowded_corner_end =
     \<lparr> board = [ [1, 2, 2, 1, 2, 1, 1, 2, 0],
                [2, 2, 1, 1, 1, 0, 0, 0, 0],
                [1, 1, 2, 0, 1, 0, 0, 0, 0],
                [1, 2, 0, 1, 2, 0, 2, 0, 0],
                zeros, zeros,
                [2, 0, 0, 2, 0, 0, 0, 1, 0],
                zeros,
                [0, 0, 0, 0, 0, 2, 0, 0, 0]],
       subgrid_wins = zeros, overall_winner = 0, next_subgrid = Some 8 \<rparr>"


section \<open>Calls with arguments in range\<close>

lemma np_index_in_range: "0 \<le> i \<Longrightarrow> i < int n \<Longrightarrow> np_index n i = Inr (nat i)"
  by (simp add: np_index_def)

lemma wf_grid_row: "wf_grid n a \<Longrightarrow> r < n \<Longrightarrow> length (a ! r) = n"
  by (simp add: wf_grid_def list_all_length)

lemma np_get2_in_range:
  assumes "wf_grid n a" "0 \<le> i" "i < int n" "0 \<le> j" "j < int n"
  shows "np_get2 a i j = Inr (a ! nat i ! nat j)"
proof -
  have la: "length a = n" using assms(1) by (simp add: wf_grid_def)
  have "nat i < n" using assms(2,3) by simp
  then have lr: "length (a ! nat i) = n" using assms(1) by (rule wf_grid_row[rotated])
  show ?thesis
    by (simp add: np_get2_def la lr np_index_in_range assms)
qed

lemma np_set2_in_range:
  assumes "wf_grid n a" "0 \<le> i" "i < int n" "0 \<le> j" "j < int n" "v \<in> {0, 1, 2}"
  shows "np_set2 a i j v = Inr (a[nat i := (a ! nat i)[nat j := v]])"
proof -
  have la: "length a = n" using assms(1) by (simp add: wf_grid_def)
  have "nat i < n" using assms(2,3) by simp
  then have lr: "length (a ! nat i) = n" using assms(1) by (rule wf_grid_row[rotated])
  have v: "- (2 ^ 63) \<le> v \<and> v < 2 ^ 63" using assms(6) by auto
  show ?thesis
    using v by (simp add: np_set2_def la lr np_index_in_range assms(2-5))
qed

lemma all_eq_in_range:
  assumes "wf_grid n a"
  shows "(\<forall>(i, j) \<in> set cells. 0 \<le> i \<and> i < int n \<and> 0 \<le> j \<and> j < int n) \<Longrightarrow>
         all_eq a cells p = Inr (\<forall>(i, j) \<in> set cells. a ! nat i ! nat j = p)"
proof (induction cells)
  case Nil
  then show ?case by simp
next
  case (Cons c cells)
  obtain i j where c: "c = (i, j)" by (cases c)
  from Cons.prems c have r: "0 \<le> i" "i < int n" "0 \<le> j" "j < int n" by auto
  from Cons have ih: "all_eq a cells p = Inr (\<forall>(i, j) \<in> set cells. a ! nat i ! nat j = p)"
    by simp
  show ?case
    by (simp add: c np_get2_in_range[OF assms r] ih)
qed

lemma all_eq_row:
  "wf_grid n a \<Longrightarrow> i < n \<Longrightarrow> all_eq a (row_cells n i) p = Inr (\<forall>j<n. a ! i ! j = p)"
  by (subst all_eq_in_range[where n = n]) (auto simp: row_cells_def)

lemma all_eq_col:
  "wf_grid n a \<Longrightarrow> i < n \<Longrightarrow> all_eq a (col_cells n i) p = Inr (\<forall>j<n. a ! j ! i = p)"
  by (subst all_eq_in_range[where n = n]) (auto simp: col_cells_def)

lemma all_eq_diag:
  "wf_grid n a \<Longrightarrow> all_eq a (diag_cells n) p = Inr (\<forall>i<n. a ! i ! i = p)"
  by (subst all_eq_in_range[where n = n]) (auto simp: diag_cells_def)

lemma all_eq_anti:
  "wf_grid n a \<Longrightarrow> all_eq a (anti_cells n) p = Inr (\<forall>i<n. a ! i ! (n - 1 - i) = p)"
proof -
  assume wf: "wf_grid n a"
  have eq: "\<And>i. i < n \<Longrightarrow> nat (int n - 1 - int i) = n - 1 - i" by simp
  show ?thesis
    by (subst all_eq_in_range[where n = n]) (use wf in \<open>auto simp: anti_cells_def eq\<close>)
qed

lemma scan_rows_cols_in_range:
  assumes "wf_grid n a"
  shows "set is \<subseteq> {..<n} \<Longrightarrow>
         scan_rows_cols a n p is =
           Inr (\<exists>i \<in> set is. (\<forall>j<n. a ! i ! j = p) \<or> (\<forall>j<n. a ! j ! i = p))"
  by (induction "is") (auto simp: all_eq_row[OF assms] all_eq_col[OF assms] split: bool.splits)

lemma wins_iff:
  "wins a n p \<longleftrightarrow>
     (\<exists>i<n. \<forall>j<n. a ! i ! j = p) \<or> (\<exists>i<n. \<forall>j<n. a ! j ! i = p) \<or>
     (\<forall>i<n. a ! i ! i = p) \<or> (\<forall>i<n. a ! i ! (n - 1 - i) = p)"
  by (simp add: wins_def list_ex_iff list_all_iff Bex_def Ball_def)

lemma has_line_wins:
  assumes "wf_grid n a"
  shows "has_line a n p = Inr (wins a n p)"
proof -
  have s: "scan_rows_cols a n p [0..<n] =
             Inr (\<exists>i<n. (\<forall>j<n. a ! i ! j = p) \<or> (\<forall>j<n. a ! j ! i = p))"
    by (subst scan_rows_cols_in_range[OF assms]) auto
  show ?thesis
    unfolding has_line_def s all_eq_diag[OF assms] all_eq_anti[OF assms] wins_iff
    by (auto split: bool.splits)
qed


lemma slice_bound_nat: "k \<le> n \<Longrightarrow> slice_bound n (int k) = k"
  by (simp add: slice_bound_def)

lemma np_slice_block:
  "k + 3 \<le> length xs \<Longrightarrow> np_slice xs (int k) (int k + 3) = take 3 (drop k xs)"
proof -
  assume h: "k + 3 \<le> length xs"
  have a: "slice_bound (length xs) (int k) = k" using h by (simp add: slice_bound_nat)
  have "int k + 3 = int (k + 3)" by simp
  then have b: "slice_bound (length xs) (int k + 3) = k + 3"
    using h slice_bound_nat[of "k + 3" "length xs"] by simp
  show ?thesis by (simp add: np_slice_def a b)
qed

lemma subgrid_origin:
  assumes "0 \<le> s" "s < 9"
  shows "(s div 3) * 3 = int (3 * (nat s div 3))" "(s mod 3) * 3 = int (3 * (nat s mod 3))"
        "3 * (nat s div 3) + 3 \<le> 9" "3 * (nat s mod 3) + 3 \<le> 9"
proof -
  define k where "k = nat s"
  have s: "s = int k" and k: "k < 9" using assms by (simp_all add: k_def)
  show "(s div 3) * 3 = int (3 * (nat s div 3))" unfolding s by (simp add: zdiv_int)
  show "(s mod 3) * 3 = int (3 * (nat s mod 3))" unfolding s by (simp add: zmod_int)
  show "3 * (nat s div 3) + 3 \<le> 9" unfolding s using k by simp
  show "3 * (nat s mod 3) + 3 \<le> 9" unfolding s by simp
qed

lemma get_subgrid_in_range:
  assumes "wf_board b" "0 \<le> s" "s < 9"
  shows "get_subgrid b s =
           map (\<lambda>r. take 3 (drop (3 * (nat s mod 3)) r))
               (take 3 (drop (3 * (nat s div 3)) (board b)))"
proof -
  have len: "length (board b) = 9" using assms(1) by (simp add: wf_board_def wf_grid_def)
  have rows: "\<And>r. r \<in> set (board b) \<Longrightarrow> length r = 9"
    using assms(1) by (simp add: wf_board_def wf_grid_def list_all_iff)
  have r: "np_slice (board b) (int (3 * (nat s div 3))) (int (3 * (nat s div 3)) + 3) =
             take 3 (drop (3 * (nat s div 3)) (board b))"
    by (rule np_slice_block) (use subgrid_origin(3)[OF assms(2,3)] len in simp)
  have c: "\<And>x. x \<in> set (take 3 (drop (3 * (nat s div 3)) (board b))) \<Longrightarrow>
             np_slice x (int (3 * (nat s mod 3))) (int (3 * (nat s mod 3)) + 3) =
             take 3 (drop (3 * (nat s mod 3)) x)"
  proof -
    fix x assume "x \<in> set (take 3 (drop (3 * (nat s div 3)) (board b)))"
    then have "x \<in> set (board b)" by (meson in_set_dropD in_set_takeD)
    then have "length x = 9" by (rule rows)
    then show "np_slice x (int (3 * (nat s mod 3))) (int (3 * (nat s mod 3)) + 3) =
             take 3 (drop (3 * (nat s mod 3)) x)"
      using subgrid_origin(4)[OF assms(2,3)] by (intro np_slice_block) simp
  qed
  show ?thesis
    unfolding get_subgrid_def Let_def subgrid_origin(1,2)[OF assms(2,3)] r
    using c by simp
qed

lemma get_subgrid_nth:
  assumes "wf_board b" "0 \<le> s" "s < 9" "i < 3" "j < 3"
  shows "get_subgrid b s ! i ! j = board b ! (3 * (nat s div 3) + i) ! (3 * (nat s mod 3) + j)"
proof -
  have len: "length (board b) = 9" using assms(1) by (simp add: wf_board_def wf_grid_def)
  have ri: "3 * (nat s div 3) + i < 9" using subgrid_origin(3)[OF assms(2,3)] assms(4) by simp
  have lr: "length (board b ! (3 * (nat s div 3) + i)) = 9"
    using assms(1) ri by (simp add: wf_board_def wf_grid_row)
  have cj: "3 * (nat s mod 3) + j < 9" using subgrid_origin(4)[OF assms(2,3)] assms(5) by simp
  have rows: "take 3 (drop (3 * (nat s div 3)) (board b)) ! i = board b ! (3 * (nat s div 3) + i)"
    using assms(4) len ri by (simp add: nth_drop)
  have li: "i < length (take 3 (drop (3 * (nat s div 3)) (board b)))"
    using assms(4) len ri by simp
  have cols: "take 3 (drop (3 * (nat s mod 3)) (board b ! (3 * (nat s div 3) + i))) ! j =
                board b ! (3 * (nat s div 3) + i) ! (3 * (nat s mod 3) + j)"
    using assms(5) lr cj by (simp add: nth_drop)
  show ?thesis
    unfolding get_subgrid_in_range[OF assms(1,2,3)] nth_map[OF li] rows cols ..
qed

lemma get_subgrid_wf:
  assumes "wf_board b" "0 \<le> s" "s < 9"
  shows "wf_grid 3 (get_subgrid b s)"
proof -
  have len: "length (board b) = 9" using assms(1) by (simp add: wf_board_def wf_grid_def)
  have rows: "\<And>r. r \<in> set (board b) \<Longrightarrow> length r = 9"
    using assms(1) by (simp add: wf_board_def wf_grid_def list_all_iff)
  have "\<And>x. x \<in> set (take 3 (drop (3 * (nat s div 3)) (board b))) \<Longrightarrow> length x = 9"
    by (meson in_set_dropD in_set_takeD rows)
  then show ?thesis
    unfolding get_subgrid_in_range[OF assms] wf_grid_def list_all_iff
    using len subgrid_origin(3,4)[OF assms(2,3)] by auto
qed

lemma is_subgrid_full_cells:
  assumes "wf_board b" "0 \<le> s" "s < 9"
  shows "is_subgrid_full b s = no_empty_cell b (nat s)"
proof -
  define r0 where "r0 = (nat s div 3) * 3"
  define c0 where "c0 = (nat s mod 3) * 3"
  have o: "3 * (nat s div 3) = r0" "3 * (nat s mod 3) = c0" by (simp_all add: r0_def c0_def)
  note nth = get_subgrid_nth[OF assms, unfolded o]
  have g: "wf_grid 3 (get_subgrid b s)" by (rule get_subgrid_wf[OF assms])
  then have len: "length (get_subgrid b s) = 3"
    and rows: "\<And>i. i < 3 \<Longrightarrow> length (get_subgrid b s ! i) = 3"
    by (simp_all add: wf_grid_def list_all_length)
  have "is_subgrid_full b s \<longleftrightarrow> (\<forall>i<3. \<forall>j<3. get_subgrid b s ! i ! j \<noteq> 0)"
    unfolding is_subgrid_full_def list_all_length len using rows by auto
  also have "\<dots> \<longleftrightarrow> (\<forall>i<3. \<forall>j<3. board b ! (r0 + i) ! (c0 + j) \<noteq> 0)"
    using nth by simp
  also have "\<dots> \<longleftrightarrow> (\<forall>r. r0 \<le> r \<and> r < r0 + 3 \<longrightarrow>
                          (\<forall>c. c0 \<le> c \<and> c < c0 + 3 \<longrightarrow> board b ! r ! c \<noteq> 0))"
  proof (intro iffI allI impI)
    fix r c
    assume h: "\<forall>i<3. \<forall>j<3. board b ! (r0 + i) ! (c0 + j) \<noteq> 0"
      and r: "r0 \<le> r \<and> r < r0 + 3" and c: "c0 \<le> c \<and> c < c0 + 3"
    from r c have "r - r0 < 3" "c - c0 < 3" "r0 + (r - r0) = r" "c0 + (c - c0) = c" by linarith+
    with h show "board b ! r ! c \<noteq> 0" by metis
  next
    fix i j :: nat
    assume h: "\<forall>r. r0 \<le> r \<and> r < r0 + 3 \<longrightarrow>
                 (\<forall>c. c0 \<le> c \<and> c < c0 + 3 \<longrightarrow> board b ! r ! c \<noteq> 0)"
      and "i < 3" "j < 3"
    then show "board b ! (r0 + i) ! (c0 + j) \<noteq> 0" by simp
  qed
  also have "\<dots> \<longleftrightarrow> no_empty_cell b (nat s)"
    by (auto simp: no_empty_cell_def list_all_iff r0_def c0_def)
  finally show ?thesis .
qed

lemma first_winner_in_range:
  assumes "wf_grid 3 a"
  shows "first_winner a [1, 2] = Inr (first_qualifying a)"
  by (simp add: has_line_wins[OF assms] first_qualifying_def split: bool.splits)

lemma py_list_set_in_range:
  "0 \<le> i \<Longrightarrow> i < int (length xs) \<Longrightarrow> py_list_set xs i v = Inr (xs[nat i := v])"
  by (simp add: py_list_set_def np_index_in_range)

lemma check_subgrid_winner_in_range:
  assumes "wf_board b" "0 \<le> s" "s < 9"
  shows "check_subgrid_winner b s =
           (case first_qualifying (get_subgrid b s) of
              None \<Rightarrow> (Inr None, b)
            | Some p \<Rightarrow> (Inr (Some p), b\<lparr>subgrid_wins := (subgrid_wins b)[nat s := p]\<rparr>))"
proof -
  have l: "length (subgrid_wins b) = 9" using assms(1) by (simp add: wf_board_def)
  show ?thesis
    unfolding check_subgrid_winner_def first_winner_in_range[OF get_subgrid_wf[OF assms]]
    using assms(2,3) l by (simp add: py_list_set_in_range split: option.splits)
qed

lemma check_winner_in_range:
  assumes "wf_board b"
  shows "check_winner b p =
           (Inr (wins (board b) 9 p), if wins (board b) 9 p then b\<lparr>overall_winner := p\<rparr> else b)"
proof -
  have "wf_grid 9 (board b)" using assms by (simp add: wf_board_def)
  then show ?thesis
    by (simp add: check_winner_def has_line_wins split: bool.splits)
qed

lemma subgrid_of_cell_in_range:
  fixes row col :: int
  assumes "0 \<le> row" "row < 9" "0 \<le> col" "col < 9"
  shows "0 \<le> (row div 3) * 3 + col div 3" "(row div 3) * 3 + col div 3 < 9"
proof -
  have "0 \<le> row div 3" "row div 3 \<le> 2" "0 \<le> col div 3" "col div 3 \<le> 2"
    using assms by simp_all
  then show "0 \<le> (row div 3) * 3 + col div 3" "(row div 3) * 3 + col div 3 < 9"
    by simp_all
qed

lemma position_in_range:
  fixes index :: int
  assumes "0 \<le> index" "index < 81"
  shows "0 \<le> index div 9" "index div 9 < 9" "0 \<le> index mod 9" "index mod 9 < 9"
  using assms by simp_all

lemma is_valid_move_in_range:
  assumes "wf_board b" "0 \<le> row" "row < 9" "0 \<le> col" "col < 9"
  shows "is_valid_move b row col = Inr (legal b row col)"
proof -
  have g: "wf_grid 9 (board b)" using assms(1) by (simp add: wf_board_def)
  have r: "np_get2 (board b) row col = Inr (board b ! nat row ! nat col)"
    by (rule np_get2_in_range[OF g]) (use assms in simp_all)
  show ?thesis
    by (auto simp: is_valid_move_def legal_def r Let_def split: option.splits)
qed

lemma wf_grid_set_cell:
  assumes "wf_grid n a"
  shows "wf_grid n (a[r := (a ! r)[c := v]])"
proof (cases "r < length a")
  case True
  have "\<And>k. k < length a \<Longrightarrow> length (a[r := (a ! r)[c := v]] ! k) = n"
  proof -
    fix k assume k: "k < length a"
    have "length (a ! k) = n" using assms k by (simp add: wf_grid_def list_all_length)
    then show "length (a[r := (a ! r)[c := v]] ! k) = n"
      using k by (cases "k = r") simp_all
  qed
  then show ?thesis using assms by (simp add: wf_grid_def list_all_length)
next
  case False
  then have "a[r := (a ! r)[c := v]] = a" by (simp add: list_update_beyond)
  then show ?thesis using assms by simp
qed

lemma wf_board_set_cell:
  assumes "wf_board b"
  shows "wf_board (b\<lparr>board := (board b)[r := (board b ! r)[c := v]]\<rparr>)"
  using assms by (simp add: wf_board_def wf_grid_set_cell)

lemma board_update_next_subgrid [simp]:
  "board (update_next_subgrid b row col) = board b"
  "subgrid_wins (update_next_subgrid b row col) = subgrid_wins b"
  "overall_winner (update_next_subgrid b row col) = overall_winner b"
  by (simp_all add: update_next_subgrid_def Let_def)

lemma board_after_move:
  "board (after_move b row col val) = (board b)[nat row := (board b ! nat row)[nat col := val]]"
  by (simp add: after_move_def Let_def split: option.splits)

lemma length_subgrid_wins_after_move:
  "length (subgrid_wins (after_move b row col val)) = length (subgrid_wins b)"
  by (simp add: after_move_def Let_def split: option.splits)

lemma wf_board_after_move:
  assumes "wf_board b"
  shows "wf_board (after_move b row col val)"
  using assms
  by (simp add: wf_board_def board_after_move length_subgrid_wins_after_move wf_grid_set_cell)

lemma move_in_range:
  assumes "wf_board b" "0 \<le> row" "row < 9" "0 \<le> col" "col < 9" "val \<in> {0, 1, 2}"
  shows "(case np_set2 (board b) row col val of
            Inl e \<Rightarrow> (Inl e, b)
          | Inr a \<Rightarrow>
              (let b1 = b\<lparr>board := a\<rparr>
               in case check_subgrid_winner b1 ((row div 3) * 3 + col div 3) of
                    (Inl e, b2) \<Rightarrow> (Inl e, b2)
                  | (Inr _, b2) \<Rightarrow>
                      (let b3 = update_next_subgrid b2 row col
                       in case check_winner b3 val of
                            (Inl e, b4) \<Rightarrow> (Inl e, b4)
                          | (Inr _, b4) \<Rightarrow> (Inr (), b4)))) =
         (Inr (), after_move b row col val)"
proof -
  let ?s = "(row div 3) * 3 + col div 3"
  let ?b1 = "b\<lparr>board := (board b)[nat row := (board b ! nat row)[nat col := val]]\<rparr>"
  have g: "wf_grid 9 (board b)" using assms(1) by (simp add: wf_board_def)
  have set: "np_set2 (board b) row col val =
               Inr ((board b)[nat row := (board b ! nat row)[nat col := val]])"
    by (rule np_set2_in_range[OF g]) (use assms in simp_all)
  have wf1: "wf_board ?b1" by (rule wf_board_set_cell[OF assms(1)])
  have s: "0 \<le> ?s" "?s < 9" by (rule subgrid_of_cell_in_range[OF assms(2-5)])+
  note csw = check_subgrid_winner_in_range[OF wf1 s]
  have wf2: "\<And>p. wf_board (b\<lparr>board := (board b)[nat row := (board b ! nat row)[nat col := val]],
                                 subgrid_wins := (subgrid_wins b)[nat ?s := p]\<rparr>)"
    using wf1 by (simp add: wf_board_def)
  have wf3: "\<And>x. wf_board x \<Longrightarrow> wf_board (update_next_subgrid x row col)"
    by (simp add: wf_board_def update_next_subgrid_def Let_def)
  show ?thesis
  proof (cases "first_qualifying (get_subgrid ?b1 ?s)")
    case None
    show ?thesis
      unfolding set after_move_def
      by (simp add: csw None Let_def check_winner_in_range[OF wf3[OF wf1]])
  next
    case (Some p)
    show ?thesis
      unfolding set after_move_def
      by (simp add: csw Some Let_def check_winner_in_range[OF wf3[OF wf2]])
  qed
qed

lemma update_cell_in_range:
  assumes "wf_board b" "0 \<le> index" "index < 81" "val \<in> {0, 1, 2}"
  shows "update_cell b index val =
           (if legal b (index div 9) (index mod 9)
            then (Inr (), after_move b (index div 9) (index mod 9) val)
            else (Inl CellOccupiedOrWrongSubgrid, b))"
proof -
  note r = position_in_range[OF assms(2,3)]
  show ?thesis
    unfolding update_cell_def index_to_position_def Let_def prod.case
      is_valid_move_in_range[OF assms(1) r] move_in_range[OF assms(1) r assms(4), unfolded Let_def]
    using assms(2-4) by simp
qed

lemma global_position:
  fixes s f :: int
  assumes "0 \<le> s" "s < 9" "0 \<le> f" "f < 9"
  shows "0 \<le> (s div 3) * 3 + f div 3" "(s div 3) * 3 + f div 3 < 9"
        "0 \<le> (s mod 3) * 3 + f mod 3" "(s mod 3) * 3 + f mod 3 < 9"
        "(((s div 3) * 3 + f div 3) div 3) * 3 + ((s mod 3) * 3 + f mod 3) div 3 = s"
proof -
  have d: "0 \<le> s div 3" "s div 3 \<le> 2" "0 \<le> f div 3" "f div 3 \<le> 2"
    using assms by simp_all
  have m: "0 \<le> s mod 3" "s mod 3 \<le> 2" "0 \<le> f mod 3" "f mod 3 \<le> 2"
    by simp_all
  show "0 \<le> (s div 3) * 3 + f div 3" "(s div 3) * 3 + f div 3 < 9"
       "0 \<le> (s mod 3) * 3 + f mod 3" "(s mod 3) * 3 + f mod 3 < 9"
    using d m by simp_all
  have 1: "((s div 3) * 3 + f div 3) div 3 = s div 3" using d by simp
  have 2: "((s mod 3) * 3 + f mod 3) div 3 = s mod 3" using m by simp
  show "(((s div 3) * 3 + f div 3) div 3) * 3 + ((s mod 3) * 3 + f mod 3) div 3 = s"
    unfolding 1 2 by simp
qed

lemma flat_index:
  fixes r c :: int
  assumes "0 \<le> r" "r < 9" "0 \<le> c" "c < 9"
  shows "0 \<le> r * 9 + c" "r * 9 + c < 81" "(r * 9 + c) div 9 = r" "(r * 9 + c) mod 9 = c"
  using assms by simp_all

lemma update_cell_in_subgrid_in_range:
  assumes "wf_board b" "0 \<le> s" "s < 9" "0 \<le> f" "f < 9" "val \<in> {0, 1, 2}"
  shows "update_cell_in_subgrid b s f val =
           (if legal b ((s div 3) * 3 + f div 3) ((s mod 3) * 3 + f mod 3)
            then (Inr (), after_move b ((s div 3) * 3 + f div 3) ((s mod 3) * 3 + f mod 3) val)
            else (Inl CellOccupiedOrWrongSubgrid, b))"
proof -
  note g = global_position[OF assms(2-5)]
  note mv = move_in_range[OF assms(1) g(1-4) assms(6), unfolded Let_def g(5)]
  show ?thesis
    unfolding update_cell_in_subgrid_def index_to_position_def Let_def prod.case
      is_valid_move_in_range[OF assms(1) g(1-4)] mv
    using assms(2-6) by simp
qed

lemma update_cell_success:
  assumes "wf_board b" "update_cell b index val = (Inr (), b')"
  shows "0 \<le> index" "index < 81" "val \<in> {0, 1, 2}" "legal b (index div 9) (index mod 9)"
        "b' = after_move b (index div 9) (index mod 9) val"
proof -
  show r: "0 \<le> index" "index < 81" using assms(2) by (auto simp: update_cell_def split: if_splits)
  show v: "val \<in> {0, 1, 2}" using assms(2) r by (auto simp: update_cell_def split: if_splits)
  note eq = update_cell_in_range[OF assms(1) r v]
  show "legal b (index div 9) (index mod 9)" using assms(2) unfolding eq by (simp split: if_splits)
  then show "b' = after_move b (index div 9) (index mod 9) val" using assms(2) unfolding eq by simp
qed

lemma is_subgrid_full_cong:
  "board x = board y \<Longrightarrow> is_subgrid_full x n = is_subgrid_full y n"
  by (simp add: is_subgrid_full_def get_subgrid_def)

lemma next_subgrid_after_move:
  "next_subgrid (after_move b row col val) =
     (let nxt = (row mod 3) * 3 + col mod 3
      in if is_subgrid_full (after_move b row col val) nxt \<or>
            subgrid_wins (after_move b row col val) ! nat nxt \<noteq> 0
         then None else Some nxt)"
proof -
  define b1 where "b1 = b\<lparr>board := (board b)[nat row := (board b ! nat row)[nat col := val]]\<rparr>"
  define b2 where "b2 = (case first_qualifying (get_subgrid b1 ((row div 3) * 3 + col div 3)) of
                  None \<Rightarrow> b1
                | Some p \<Rightarrow> b1\<lparr>subgrid_wins := (subgrid_wins b1)[nat ((row div 3) * 3 + col div 3) := p]\<rparr>)"
  define b3 where "b3 = update_next_subgrid b2 row col"
  have am: "after_move b row col val = (if wins (board b3) 9 val then b3\<lparr>overall_winner := val\<rparr> else b3)"
    unfolding after_move_def b3_def b2_def b1_def Let_def by (rule refl)
  have n: "next_subgrid (after_move b row col val) = next_subgrid b3"
    and bd: "board (after_move b row col val) = board b2"
    and sw: "subgrid_wins (after_move b row col val) = subgrid_wins b2"
    by (simp_all add: am b3_def)
  have "next_subgrid b3 =
     (let nxt = (row mod 3) * 3 + col mod 3
      in if is_subgrid_full b2 nxt \<or> subgrid_wins b2 ! nat nxt \<noteq> 0 then None else Some nxt)"
    by (simp add: b3_def update_next_subgrid_def Let_def)
  then show ?thesis
    unfolding n sw is_subgrid_full_cong[OF bd] .
qed

section \<open>Subgrid statuses along a game\<close>

lemma wins_mono:
  assumes "\<And>i j. i < n \<Longrightarrow> j < n \<Longrightarrow> a ! i ! j = p \<Longrightarrow> a' ! i ! j = p"
    and "wins a n p"
  shows "wins a' n p"
proof -
  have anti: "\<And>i. i < n \<Longrightarrow> n - 1 - i < n" by simp
  from assms(2) consider
      (row) i where "i < n" "\<forall>j<n. a ! i ! j = p"
    | (col) i where "i < n" "\<forall>j<n. a ! j ! i = p"
    | (diag) "\<forall>i<n. a ! i ! i = p"
    | (anti) "\<forall>i<n. a ! i ! (n - 1 - i) = p"
    unfolding wins_iff by blast
  then show ?thesis
  proof cases
    case row
    then have "\<forall>j<n. a' ! i ! j = p" using assms(1) by blast
    with row(1) show ?thesis unfolding wins_iff by blast
  next
    case col
    then have "\<forall>j<n. a' ! j ! i = p" using assms(1) by blast
    with col(1) show ?thesis unfolding wins_iff by blast
  next
    case diag
    then have "\<forall>i<n. a' ! i ! i = p" using assms(1) by blast
    then show ?thesis unfolding wins_iff by blast
  next
    case anti
    then have "\<forall>i<n. a' ! i ! (n - 1 - i) = p" using assms(1) \<open>\<And>i. i < n \<Longrightarrow> n - 1 - i < n\<close> by blast
    then show ?thesis unfolding wins_iff by blast
  qed
qed

lemma wins_cong:
  assumes "\<And>i j. i < n \<Longrightarrow> j < n \<Longrightarrow> a ! i ! j = a' ! i ! j"
  shows "wins a n p = wins a' n p"
proof
  assume "wins a n p"
  then show "wins a' n p" by (rule wins_mono[rotated]) (simp add: assms[symmetric])
next
  assume "wins a' n p"
  then show "wins a n p" by (rule wins_mono[rotated]) (simp add: assms)
qed

lemma cell_after_set:
  assumes "wf_grid 9 a" "R < 9" "C < 9" "r < 9" "c < 9"
  shows "a[R := (a ! R)[C := v]] ! r ! c = (if r = R \<and> c = C then v else a ! r ! c)"
proof -
  have la: "length a = 9" using assms(1) by (simp add: wf_grid_def)
  have lr: "length (a ! R) = 9" using assms(1,2) by (rule wf_grid_row)
  show ?thesis using la lr assms(2-5) by (simp add: nth_list_update)
qed

lemma get_subgrid_cong: "board x = board y \<Longrightarrow> get_subgrid x s = get_subgrid y s"
  by (simp add: get_subgrid_def)

lemma subgrid_cell_after_move:
  assumes "wf_board b" "0 \<le> row" "row < 9" "0 \<le> col" "col < 9" "0 \<le> s" "s < 9" "i < 3" "j < 3"
  shows "get_subgrid (after_move b row col val) s ! i ! j =
           (if 3 * (nat s div 3) + i = nat row \<and> 3 * (nat s mod 3) + j = nat col then val
            else get_subgrid b s ! i ! j)"
proof -
  have g: "wf_grid 9 (board b)" using assms(1) by (simp add: wf_board_def)
  have r: "3 * (nat s div 3) + i < 9" using subgrid_origin(3)[OF assms(6,7)] assms(8) by simp
  have c: "3 * (nat s mod 3) + j < 9" using subgrid_origin(4)[OF assms(6,7)] assms(9) by simp
  have R: "nat row < 9" "nat col < 9" using assms(2-5) by simp_all
  show ?thesis
    unfolding get_subgrid_nth[OF wf_board_after_move[OF assms(1)] assms(6-9)]
      get_subgrid_nth[OF assms(1) assms(6-9)] board_after_move
      cell_after_set[OF g R r c] ..
qed

lemma subgrid_of_target:
  fixes row col s :: int
  assumes "0 \<le> row" "row < 9" "0 \<le> col" "col < 9" "0 \<le> s" "s < 9" "i < 3" "j < 3"
    and "3 * (nat s div 3) + i = nat row" "3 * (nat s mod 3) + j = nat col"
  shows "(row div 3) * 3 + col div 3 = s"
proof -
  define k where "k = nat s"
  define R where "R = 3 * (k div 3) + i"
  define C where "C = 3 * (k mod 3) + j"
  have s: "s = int k" using assms(5) by (simp add: k_def)
  have row: "row = int R" using assms(1,9) by (simp add: k_def R_def)
  have col: "col = int C" using assms(3,10) by (simp add: k_def C_def)
  have "R div 3 = k div 3" using assms(7) by (simp add: R_def)
  moreover have "C div 3 = k mod 3" using assms(8) by (simp add: C_def)
  ultimately have n: "(R div 3) * 3 + C div 3 = k" by simp
  have "(row div 3) * 3 + col div 3 = int ((R div 3) * 3 + C div 3)"
    unfolding row col by (simp add: zdiv_int)
  then show ?thesis unfolding n s .
qed

lemma wins_subgrid_mono:
  assumes "wf_board b" "0 \<le> row" "row < 9" "0 \<le> col" "col < 9" "0 \<le> s" "s < 9"
    and "legal b row col" "p \<noteq> 0" "wins (get_subgrid b s) 3 p"
  shows "wins (get_subgrid (after_move b row col val) s) 3 p"
proof (rule wins_mono[OF _ assms(10)])
  fix i j :: nat
  assume ij: "i < 3" "j < 3" and cell: "get_subgrid b s ! i ! j = p"
  have "\<not> (3 * (nat s div 3) + i = nat row \<and> 3 * (nat s mod 3) + j = nat col)"
  proof
    assume t: "3 * (nat s div 3) + i = nat row \<and> 3 * (nat s mod 3) + j = nat col"
    have "get_subgrid b s ! i ! j = board b ! nat row ! nat col"
      unfolding get_subgrid_nth[OF assms(1,6,7) ij] using t by simp
    moreover have "board b ! nat row ! nat col = 0" using assms(8) by (simp add: legal_def)
    ultimately show False using cell assms(9) by simp
  qed
  then show "get_subgrid (after_move b row col val) s ! i ! j = p"
    unfolding subgrid_cell_after_move[OF assms(1-7) ij] using cell by auto
qed

lemma wins_subgrid_other:
  assumes "wf_board b" "0 \<le> row" "row < 9" "0 \<le> col" "col < 9" "0 \<le> s" "s < 9"
    and "s \<noteq> (row div 3) * 3 + col div 3"
  shows "wins (get_subgrid (after_move b row col val) s) 3 p = wins (get_subgrid b s) 3 p"
proof (rule wins_cong)
  fix i j :: nat
  assume ij: "i < 3" "j < 3"
  have "\<not> (3 * (nat s div 3) + i = nat row \<and> 3 * (nat s mod 3) + j = nat col)"
    using subgrid_of_target[OF assms(2-7) ij] assms(8) by blast
  then show "get_subgrid (after_move b row col val) s ! i ! j = get_subgrid b s ! i ! j"
    unfolding subgrid_cell_after_move[OF assms(1-7) ij] by auto
qed

lemma subgrid_wins_after_move:
  "subgrid_wins (after_move b row col val) =
     (case first_qualifying (get_subgrid (after_move b row col val) ((row div 3) * 3 + col div 3)) of
        None \<Rightarrow> subgrid_wins b
      | Some p \<Rightarrow> (subgrid_wins b)[nat ((row div 3) * 3 + col div 3) := p])"
proof -
  have "get_subgrid (after_move b row col val) ((row div 3) * 3 + col div 3) =
        get_subgrid (b\<lparr>board := (board b)[nat row := (board b ! nat row)[nat col := val]]\<rparr>)
          ((row div 3) * 3 + col div 3)"
    by (rule get_subgrid_cong) (simp add: board_after_move)
  then show ?thesis
    by (simp add: after_move_def Let_def split: option.splits)
qed


lemma update_cell_in_subgrid_success:
  assumes "wf_board b" "update_cell_in_subgrid b s f val = (Inr (), b')"
  shows "0 \<le> s" "s < 9" "0 \<le> f" "f < 9" "val \<in> {0, 1, 2}"
        "legal b ((s div 3) * 3 + f div 3) ((s mod 3) * 3 + f mod 3)"
        "b' = after_move b ((s div 3) * 3 + f div 3) ((s mod 3) * 3 + f mod 3) val"
proof -
  show r: "0 \<le> s" "s < 9" "0 \<le> f" "f < 9"
    using assms(2) by (auto simp: update_cell_in_subgrid_def split: if_splits)
  show v: "val \<in> {0, 1, 2}"
    using assms(2) r by (auto simp: update_cell_in_subgrid_def split: if_splits)
  note eq = update_cell_in_subgrid_in_range[OF assms(1) r v]
  show "legal b ((s div 3) * 3 + f div 3) ((s mod 3) * 3 + f mod 3)"
    using assms(2) unfolding eq by (simp split: if_splits)
  then show "b' = after_move b ((s div 3) * 3 + f div 3) ((s mod 3) * 3 + f mod 3) val"
    using assms(2) unfolding eq by simp
qed

lemma apply_move_success:
  assumes "wf_board b" "apply_move b m = (Inr (), b')"
  obtains row col where "0 \<le> row" "row < 9" "0 \<le> col" "col < 9" "legal b row col"
    "b' = after_move b row col (move_value m)"
proof (cases m)
  case (Cell index val)
  then have u: "update_cell b index val = (Inr (), b')" using assms(2) by simp
  note s = update_cell_success[OF assms(1) u]
  show ?thesis
    using that[OF position_in_range[OF s(1,2)] s(4)] s(5) Cell by simp
next
  case (InSubgrid s f val)
  then have u: "update_cell_in_subgrid b s f val = (Inr (), b')" using assms(2) by simp
  note r = update_cell_in_subgrid_success[OF assms(1) u]
  show ?thesis
    using that[OF global_position(1-4)[OF r(1-4)] r(6)] r(7) InSubgrid by simp
qed

lemma status_consistent_iff:
  "status_consistent b \<longleftrightarrow> (\<forall>s<9. subgrid_wins b ! s = status_of_grid b s)"
  by (auto simp: status_consistent_def list_all_iff)

lemma first_qualifying_None: "first_qualifying a = None \<longleftrightarrow> \<not> wins a 3 1 \<and> \<not> wins a 3 2"
  by (simp add: first_qualifying_def)

lemma status_consistent_after_move:
  assumes "wf_board b" "status_consistent b" "0 \<le> row" "row < 9" "0 \<le> col" "col < 9"
    and "legal b row col"
  shows "status_consistent (after_move b row col val)"
  unfolding status_consistent_iff
proof (intro allI impI)
  fix s :: nat
  assume s: "s < 9"
  let ?b' = "after_move b row col val"
  let ?k = "(row div 3) * 3 + col div 3"
  have si: "0 \<le> int s" "int s < 9" using s by simp_all
  have k: "0 \<le> ?k" "?k < 9" by (rule subgrid_of_cell_in_range[OF assms(3-6)])+
  have len: "length (subgrid_wins b) = 9" using assms(1) by (simp add: wf_board_def)
  have old: "subgrid_wins b ! s = status_of_grid b s"
    using assms(2) s by (simp add: status_consistent_iff)
  note mono = wins_subgrid_mono[OF assms(1,3-6) si assms(7)]
  show "subgrid_wins ?b' ! s = status_of_grid ?b' s"
  proof (cases "int s = ?k")
    case True
    then have ks: "nat ?k = s" by simp
    show ?thesis
    proof (cases "first_qualifying (get_subgrid ?b' ?k)")
      case None
      then have "\<not> wins (get_subgrid ?b' (int s)) 3 1" "\<not> wins (get_subgrid ?b' (int s)) 3 2"
        unfolding True by (simp_all add: first_qualifying_None)
      then have "\<not> wins (get_subgrid b (int s)) 3 1" "\<not> wins (get_subgrid b (int s)) 3 2"
        using mono[of 1 val] mono[of 2 val] by auto
      then have "status_of_grid b s = 0"
        by (simp add: status_of_grid_def first_qualifying_def)
      then show ?thesis
        using None old by (simp add: subgrid_wins_after_move status_of_grid_def True)
    next
      case (Some p)
      then show ?thesis
        using len s ks by (simp add: subgrid_wins_after_move status_of_grid_def True)
    qed
  next
    case False
    then have ne: "nat ?k \<noteq> s" using k by auto
    have "subgrid_wins ?b' ! s = subgrid_wins b ! s"
      using ne by (simp add: subgrid_wins_after_move split: option.splits)
    moreover have "first_qualifying (get_subgrid ?b' (int s)) = first_qualifying (get_subgrid b (int s))"
      unfolding first_qualifying_def
      using wins_subgrid_other[OF assms(1,3-6) si False] by simp
    ultimately show ?thesis using old by (simp add: status_of_grid_def)
  qed
qed

lemma invariant_apply_move:
  assumes "wf_board b \<and> status_consistent b" "apply_move b m = (Inr (), b')"
  shows "wf_board b' \<and> status_consistent b'"
proof -
  from assms(1) have wf: "wf_board b" and sc: "status_consistent b" by simp_all
  from apply_move_success[OF wf assms(2)] obtain row col where
    r: "0 \<le> row" "row < 9" "0 \<le> col" "col < 9" "legal b row col"
    and b': "b' = after_move b row col (move_value m)" .
  show ?thesis
    unfolding b' using wf_board_after_move[OF wf] status_consistent_after_move[OF wf sc r] by simp
qed

lemma invariant_play:
  "play b0 ms = Inr b \<Longrightarrow> wf_board b0 \<and> status_consistent b0 \<Longrightarrow>
   wf_board b \<and> status_consistent b"
proof (induction ms arbitrary: b0)
  case Nil
  then show ?case by simp
next
  case (Cons m ms)
  obtain r b1 where a: "apply_move b0 m = (r, b1)" by (cases "apply_move b0 m")
  with Cons.prems(1) have r: "r = Inr ()" and p: "play b1 ms = Inr b"
    by (auto split: sum.splits)
  from invariant_apply_move[OF Cons.prems(2) a[unfolded r]] Cons.IH[OF p] show ?case by simp
qed

lemma invariant_init: "wf_board init \<and> status_consistent init"
  by code_simp

lemma overall_winner_after_move:
  "overall_winner (after_move b row col val) =
     (if wins (board (after_move b row col val)) 9 val then val else overall_winner b)"
  by (simp add: after_move_def Let_def split: option.splits)

section \<open>Bulk replacement of a subgrid\<close>











section \<open>The games, evaluated\<close>

lemma after_opening_reached: "update_cell init 0 1 = (Inr (), after_opening)"
  by code_simp

lemma subgrid_race_reached: "play init subgrid_race = Inr subgrid_race_end"
  by code_simp

lemma line_race_reached: "play init line_race = Inr line_race_end"
  by code_simp

lemma crowded_corner_reached: "play init crowded_corner = Inr crowded_corner_end"
  by code_simp

lemma wf_concrete: "wf_board init" "wf_board after_opening" "wf_board subgrid_race_end" "wf_board line_race_end"
  "wf_board crowded_corner_end"
  by code_simp+

section \<open>The claims\<close>

subsection \<open>C1: subgrid statuses after a win\<close>

text \<open>
  C1, as stated: once the status of subgrid \<open>s\<close> is WonBy(p) in a reachable state, no later
  successful call changes it. This fails: in the game \<open>subgrid_race\<close> subgrid 0 is recorded
  for PlayerTwo, and PlayerOne's next legal move at flat index 10 completes the middle row
  of subgrid 0, after which subgrid 0 is recorded for PlayerOne.
\<close>

theorem subgrid_status_overwritten:
  "play init subgrid_race = Inr subgrid_race_end \<and>
   subgrid_wins subgrid_race_end ! 0 = 2 \<and>
   fst (update_cell subgrid_race_end 10 1) = Inr () \<and>
   subgrid_wins (snd (update_cell subgrid_race_end 10 1)) ! 0 = 1"
proof -
  have "subgrid_wins subgrid_race_end ! 0 = 2 \<and>
        fst (update_cell subgrid_race_end 10 1) = Inr () \<and>
        subgrid_wins (snd (update_cell subgrid_race_end 10 1)) ! 0 = 1"
    by code_simp
  with subgrid_race_reached show ?thesis by simp
qed

text \<open>
  C1, amended: in every state reachable from the initial board by successful calls of
  \<open>update_cell\<close> and \<open>update_cell_in_subgrid\<close>, a subgrid recorded for PlayerOne stays
  recorded for PlayerOne after any further successful call; a subgrid recorded for
  PlayerTwo never returns to Undecided, and after a further successful call it is recorded
  for PlayerOne exactly when the subgrid then holds a line of PlayerOne, and for PlayerTwo
  otherwise.
\<close>

theorem subgrid_status_after_win:
  assumes "play init ms = Inr b" "apply_move b m = (Inr (), b')" "s < 9"
  shows "(subgrid_wins b ! s = 1 \<longrightarrow> subgrid_wins b' ! s = 1) \<and>
         (subgrid_wins b ! s = 2 \<longrightarrow>
            subgrid_wins b' ! s = (if wins (get_subgrid b' (int s)) 3 1 then 1 else 2))"
proof -
  have inv: "wf_board b \<and> status_consistent b"
    by (rule invariant_play[OF assms(1) invariant_init])
  then have wf: "wf_board b" and sc: "status_consistent b" by simp_all
  have inv': "wf_board b' \<and> status_consistent b'"
    by (rule invariant_apply_move[OF inv assms(2)])
  from apply_move_success[OF wf assms(2)] obtain row col where
    r: "0 \<le> row" "row < 9" "0 \<le> col" "col < 9" "legal b row col"
    and b': "b' = after_move b row col (move_value m)" .
  have si: "0 \<le> int s" "int s < 9" using assms(3) by simp_all
  note mono = wins_subgrid_mono[OF wf r(1-4) si r(5), where val = "move_value m", folded b']
  have old: "subgrid_wins b ! s = status_of_grid b s"
    using sc assms(3) by (simp add: status_consistent_iff)
  have new: "subgrid_wins b' ! s = status_of_grid b' s"
    using inv' assms(3) by (simp add: status_consistent_iff)
  show ?thesis
  proof (intro conjI impI)
    assume "subgrid_wins b ! s = 1"
    then have "wins (get_subgrid b (int s)) 3 1"
      using old by (simp add: status_of_grid_def first_qualifying_def split: if_splits)
    then have "wins (get_subgrid b' (int s)) 3 1" using mono[where p = 1] by simp
    then show "subgrid_wins b' ! s = 1"
      unfolding new by (simp add: status_of_grid_def first_qualifying_def)
  next
    assume "subgrid_wins b ! s = 2"
    then have "wins (get_subgrid b (int s)) 3 2"
      using old by (simp add: status_of_grid_def first_qualifying_def split: if_splits)
    then have "wins (get_subgrid b' (int s)) 3 2" using mono[where p = 2] by simp
    then show "subgrid_wins b' ! s = (if wins (get_subgrid b' (int s)) 3 1 then 1 else 2)"
      unfolding new by (simp add: status_of_grid_def first_qualifying_def)
  qed
qed

text \<open>C1, witness: the last move of the game above, where the second case applies.\<close>

theorem subgrid_status_after_win_witness:
  "play init subgrid_race = Inr subgrid_race_end \<and>
   fst (apply_move subgrid_race_end (Cell 10 1)) = Inr () \<and>
   (0::nat) < 9 \<and>
   subgrid_wins subgrid_race_end ! 0 = 2 \<and>
   subgrid_wins (snd (apply_move subgrid_race_end (Cell 10 1))) ! 0 =
     (if wins (get_subgrid (snd (apply_move subgrid_race_end (Cell 10 1))) (int 0)) 3 1
      then 1 else 2)"
proof -
  have h2: "apply_move subgrid_race_end (Cell 10 1) =
              (Inr (), snd (apply_move subgrid_race_end (Cell 10 1)))"
    by code_simp
  have h3: "(0::nat) < 9" by simp
  have h4: "subgrid_wins subgrid_race_end ! 0 = 2" by code_simp
  have c: "subgrid_wins (snd (apply_move subgrid_race_end (Cell 10 1))) ! 0 =
     (if wins (get_subgrid (snd (apply_move subgrid_race_end (Cell 10 1))) (int 0)) 3 1
      then 1 else 2)"
    by (rule subgrid_status_after_win[OF subgrid_race_reached h2 h3, THEN conjunct2, THEN mp, OF h4])
  have "fst (apply_move subgrid_race_end (Cell 10 1)) = Inr ()" using h2 by (metis fst_conv)
  with subgrid_race_reached h3 h4 c show ?thesis by blast
qed

subsection \<open>C2: the values \<open>update_cell\<close> accepts\<close>

text \<open>
  C2, as stated: \<open>update_cell\<close> with the value 0 fails with InvalidPlayer. This fails: on
  the initial board \<open>update_cell(0, 0)\<close> succeeds (and forces subgrid 0).
\<close>

theorem empty_value_accepted:
  "update_cell init 0 0 = (Inr (), init\<lparr>next_subgrid := Some 0\<rparr>)"
  by code_simp

text \<open>
  C2, amended: for every in-range position, \<open>update_cell\<close> fails with InvalidPlayer exactly
  when the value is none of 0, 1 and 2; the value 0 (Empty) is accepted.
\<close>

theorem invalid_player_values:
  assumes "wf_board b" "0 \<le> index" "index < 81"
  shows "fst (update_cell b index val) = Inl InvalidPlayer \<longleftrightarrow> val \<notin> {0, 1, 2}"
proof (cases "val \<in> {0, 1, 2}")
  case True
  then show ?thesis by (auto simp: update_cell_in_range[OF assms])
next
  case False
  then show ?thesis using assms(2,3) by (simp add: update_cell_def)
qed

text \<open>C2, witness: the value 3 on the initial board.\<close>

theorem invalid_player_values_witness:
  "wf_board init \<and> (0::int) \<le> 0 \<and> (0::int) < 81 \<and>
   fst (update_cell init 0 3) = Inl InvalidPlayer"
proof -
  have w: "wf_board init" by (rule wf_concrete(1))
  have "fst (update_cell init 0 3) = Inl InvalidPlayer \<longleftrightarrow> (3::int) \<notin> {0, 1, 2}"
    by (rule invalid_player_values[OF w]) simp_all
  then show ?thesis using w by simp
qed

subsection \<open>C3: the overall winner after it is set\<close>

text \<open>
  C3, as stated: once OverallWinner is set, no later call clears it or overwrites it with
  the other player. This fails: in the game \<open>line_race\<close> PlayerOne has filled row 1 and is
  the overall winner, and PlayerTwo's next legal move at flat index 35 completes row 3,
  after which the overall winner is PlayerTwo.
\<close>

theorem overall_winner_overwritten:
  "play init line_race = Inr line_race_end \<and>
   overall_winner line_race_end = 1 \<and>
   fst (update_cell line_race_end 35 2) = Inr () \<and>
   overall_winner (snd (update_cell line_race_end 35 2)) = 2"
proof -
  have "overall_winner line_race_end = 1 \<and>
        fst (update_cell line_race_end 35 2) = Inr () \<and>
        overall_winner (snd (update_cell line_race_end 35 2)) = 2"
    by code_simp
  with line_race_reached show ?thesis by simp
qed

text \<open>
  C3, amended: after a successful call of \<open>update_cell\<close> or \<open>update_cell_in_subgrid\<close> that
  places the mark of PlayerOne or PlayerTwo, OverallWinner is that player if the grid then
  holds a full line of nine of that player's marks, and is otherwise what it was before the
  call. So a set OverallWinner is kept by every later move of the same player and by every
  move that leaves the mover without a full line, and is overwritten by the other player's
  move that completes a full line of their own.
\<close>

theorem overall_winner_after_player_move:
  assumes "wf_board b" "apply_move b m = (Inr (), b')" "move_value m \<in> {1, 2}"
  shows "overall_winner b' =
           (if wins (board b') 9 (move_value m) then move_value m else overall_winner b)"
proof -
  from apply_move_success[OF assms(1,2)] obtain row col where
    b': "b' = after_move b row col (move_value m)" .
  show ?thesis unfolding b' by (rule overall_winner_after_move)
qed

text \<open>C3, witness: PlayerTwo's move at flat index 35 in the game above.\<close>

theorem overall_winner_after_player_move_witness:
  "wf_board line_race_end \<and>
   fst (apply_move line_race_end (Cell 35 2)) = Inr () \<and>
   move_value (Cell 35 2) \<in> {1, 2} \<and>
   overall_winner (snd (apply_move line_race_end (Cell 35 2))) =
     (if wins (board (snd (apply_move line_race_end (Cell 35 2)))) 9 (move_value (Cell 35 2))
      then move_value (Cell 35 2) else overall_winner line_race_end)"
proof -
  have w: "wf_board line_race_end" by (rule wf_concrete(4))
  have h2: "apply_move line_race_end (Cell 35 2) =
              (Inr (), snd (apply_move line_race_end (Cell 35 2)))"
    by code_simp
  have h3: "move_value (Cell 35 2) \<in> {1, 2}" by simp
  note c = overall_winner_after_player_move[OF w h2 h3]
  have "fst (apply_move line_race_end (Cell 35 2)) = Inr ()" using h2 by (metis fst_conv)
  with w h3 c show ?thesis by blast
qed

subsection \<open>C4: the next constraint\<close>

text \<open>
  C4: after a successful \<open>update_cell\<close> at \<open>(row, col) = (index div 9, index mod 9)\<close>, with
  \<open>(lr, lc) = (row mod 3, col mod 3)\<close>, the next constraint is Forced(\<open>lr * 3 + lc\<close>) if, in
  the resulting state, subgrid \<open>lr * 3 + lc\<close> has an Empty cell among its nine cells and no
  recorded winner, and Unconstrained otherwise; the previous constraint plays no part in
  the new value.
\<close>

theorem constraint_derivation:
  assumes "wf_board b" "update_cell b index val = (Inr (), b')"
  shows "next_subgrid b' =
           (let lr = (index div 9) mod 3; lc = (index mod 9) mod 3; nxt = lr * 3 + lc
            in if no_empty_cell b' (nat nxt) \<or> subgrid_wins b' ! nat nxt \<noteq> 0
               then None else Some nxt)"
proof -
  let ?nxt = "((index div 9) mod 3) * 3 + (index mod 9) mod 3"
  have wf': "wf_board b'"
    unfolding update_cell_success(5)[OF assms] by (rule wf_board_after_move[OF assms(1)])
  have m: "0 \<le> (index div 9) mod 3" "(index div 9) mod 3 \<le> 2"
    "0 \<le> (index mod 9) mod 3" "(index mod 9) mod 3 \<le> 2" by simp_all
  then have n: "0 \<le> ?nxt" "?nxt < 9" by simp_all
  have "next_subgrid b' =
           (let nxt = ?nxt
            in if is_subgrid_full b' nxt \<or> subgrid_wins b' ! nat nxt \<noteq> 0
               then None else Some nxt)"
    unfolding update_cell_success(5)[OF assms] by (rule next_subgrid_after_move)
  then show ?thesis
    unfolding Let_def is_subgrid_full_cells[OF wf' n] .
qed

text \<open>
  C4, witness: PlayerOne's opening move at flat index 0 forces subgrid 0, which has Empty
  cells and no winner; at the end of \<open>crowded_corner\<close> PlayerOne's move at flat index 60
  (the top-left cell of subgrid 8) points to subgrid 0, which has no winner and no Empty
  cell, and the constraint is Unconstrained.
\<close>

theorem constraint_derivation_witness:
  "wf_board init \<and> update_cell init 0 1 = (Inr (), after_opening) \<and>
   \<not> no_empty_cell after_opening 0 \<and> subgrid_wins after_opening ! 0 = 0 \<and>
   next_subgrid after_opening = Some 0 \<and>
   wf_board crowded_corner_end \<and>
   fst (update_cell crowded_corner_end 60 1) = Inr () \<and>
   no_empty_cell (snd (update_cell crowded_corner_end 60 1)) 0 \<and>
   subgrid_wins (snd (update_cell crowded_corner_end 60 1)) ! 0 = 0 \<and>
   next_subgrid (snd (update_cell crowded_corner_end 60 1)) = None"
proof -
  have w: "wf_board init" by (rule wf_concrete(1))
  have a: "next_subgrid after_opening =
           (let lr = ((0::int) div 9) mod 3; lc = (0 mod 9) mod 3; nxt = lr * 3 + lc
            in if no_empty_cell after_opening (nat nxt) \<or> subgrid_wins after_opening ! nat nxt \<noteq> 0
               then None else Some nxt)"
    by (rule constraint_derivation[OF w after_opening_reached])
  have a1: "\<not> no_empty_cell after_opening 0" "subgrid_wins after_opening ! 0 = 0"
    by code_simp+
  have w2: "wf_board crowded_corner_end" by (rule wf_concrete(5))
  have h2: "update_cell crowded_corner_end 60 1 =
              (Inr (), snd (update_cell crowded_corner_end 60 1))"
    by code_simp
  have c: "next_subgrid (snd (update_cell crowded_corner_end 60 1)) =
           (let lr = ((60::int) div 9) mod 3; lc = (60 mod 9) mod 3; nxt = lr * 3 + lc
            in if no_empty_cell (snd (update_cell crowded_corner_end 60 1)) (nat nxt) \<or>
                  subgrid_wins (snd (update_cell crowded_corner_end 60 1)) ! nat nxt \<noteq> 0
               then None else Some nxt)"
    by (rule constraint_derivation[OF w2 h2])
  have c1: "no_empty_cell (snd (update_cell crowded_corner_end 60 1)) 0"
    "subgrid_wins (snd (update_cell crowded_corner_end 60 1)) ! 0 = 0"
    by code_simp+
  have f: "fst (update_cell crowded_corner_end 60 1) = Inr ()" using h2 by (metis fst_conv)
  have a2: "next_subgrid after_opening = Some 0" using a a1 by simp
  have c2: "next_subgrid (snd (update_cell crowded_corner_end 60 1)) = None" using c c1 by simp
  from w after_opening_reached a1 a2 w2 f c1 c2 show ?thesis by blast
qed

subsection \<open>C5: a failed call changes nothing\<close>

text \<open>
  C5: whenever \<open>update_cell\<close> or \<open>update_cell_in_subgrid\<close> raises, the board state is the
  one before the call, and the error is OutOfRange, InvalidPlayer or
  CellOccupiedOrWrongSubgrid.
\<close>

theorem atomic_failure:
  assumes "wf_board b"
  shows "(fst (update_cell b index val) = Inl e \<longrightarrow>
            snd (update_cell b index val) = b \<and>
            e \<in> {OutOfRange, InvalidPlayer, CellOccupiedOrWrongSubgrid}) \<and>
         (fst (update_cell_in_subgrid b s f val) = Inl e \<longrightarrow>
            snd (update_cell_in_subgrid b s f val) = b \<and>
            e \<in> {OutOfRange, InvalidPlayer, CellOccupiedOrWrongSubgrid})"
proof
  show "fst (update_cell b index val) = Inl e \<longrightarrow>
            snd (update_cell b index val) = b \<and>
            e \<in> {OutOfRange, InvalidPlayer, CellOccupiedOrWrongSubgrid}"
  proof (cases "0 \<le> index \<and> index < 81 \<and> val \<in> {0, 1, 2}")
    case True
    then show ?thesis by (auto simp: update_cell_in_range[OF assms])
  next
    case False
    then show ?thesis by (auto simp: update_cell_def)
  qed
  show "fst (update_cell_in_subgrid b s f val) = Inl e \<longrightarrow>
            snd (update_cell_in_subgrid b s f val) = b \<and>
            e \<in> {OutOfRange, InvalidPlayer, CellOccupiedOrWrongSubgrid}"
  proof (cases "0 \<le> s \<and> s < 9 \<and> 0 \<le> f \<and> f < 9 \<and> val \<in> {0, 1, 2}")
    case True
    then show ?thesis by (auto simp: update_cell_in_subgrid_in_range[OF assms])
  next
    case False
    then show ?thesis by (auto simp: update_cell_in_subgrid_def)
  qed
qed

text \<open>
  C5, witness: after the opening move, a move on the occupied cell and a move outside the
  forced subgrid both fail and leave the state as it was.
\<close>

theorem atomic_failure_witness:
  "wf_board after_opening \<and>
   fst (update_cell after_opening 0 2) = Inl CellOccupiedOrWrongSubgrid \<and>
   snd (update_cell after_opening 0 2) = after_opening \<and>
   fst (update_cell_in_subgrid after_opening 4 4 2) = Inl CellOccupiedOrWrongSubgrid \<and>
   snd (update_cell_in_subgrid after_opening 4 4 2) = after_opening"
proof -
  have w: "wf_board after_opening" by (rule wf_concrete(2))
  have f1: "fst (update_cell after_opening 0 2) = Inl CellOccupiedOrWrongSubgrid"
    and f2: "fst (update_cell_in_subgrid after_opening 4 4 2) = Inl CellOccupiedOrWrongSubgrid"
    by code_simp+
  from atomic_failure[OF w, of 0 2 CellOccupiedOrWrongSubgrid 4 4] f1 f2 w
  show ?thesis by simp
qed

subsection \<open>C6: legality\<close>

text \<open>
  C6: for every position of the grid, \<open>is_valid_move\<close> returns true if and only if the
  cell is Empty and the constraint is Unconstrained or forces the cell's subgrid
  \<open>(row div 3) * 3 + col div 3\<close>; the recorded subgrid statuses play no part in the answer.
\<close>

theorem legality_characterization:
  assumes "wf_board b" "0 \<le> row" "row < 9" "0 \<le> col" "col < 9"
  shows "is_valid_move b row col =
           Inr (board b ! nat row ! nat col = 0 \<and>
                (next_subgrid b = None \<or> next_subgrid b = Some ((row div 3) * 3 + col div 3))) \<and>
         is_valid_move (b\<lparr>subgrid_wins := w\<rparr>) row col = is_valid_move b row col"
proof
  show "is_valid_move b row col =
           Inr (board b ! nat row ! nat col = 0 \<and>
                (next_subgrid b = None \<or> next_subgrid b = Some ((row div 3) * 3 + col div 3)))"
    using is_valid_move_in_range[OF assms] by (simp add: legal_def)
  show "is_valid_move (b\<lparr>subgrid_wins := w\<rparr>) row col = is_valid_move b row col"
    by (simp add: is_valid_move_def Let_def cong: option.case_cong if_cong)
qed

text \<open>
  C6, witness: at the end of \<open>subgrid_race\<close> subgrid 0 is recorded as won, and the move at
  its centre is legal.
\<close>

theorem legality_characterization_witness:
  "wf_board subgrid_race_end \<and> (0::int) \<le> 1 \<and> (1::int) < 9 \<and>
   subgrid_wins subgrid_race_end ! 0 = 2 \<and>
   is_valid_move subgrid_race_end 1 1 = Inr True"
proof -
  have w: "wf_board subgrid_race_end" by (rule wf_concrete(3))
  have "is_valid_move subgrid_race_end 1 1 =
           Inr (board subgrid_race_end ! nat 1 ! nat 1 = 0 \<and>
                (next_subgrid subgrid_race_end = None \<or>
                 next_subgrid subgrid_race_end = Some (((1::int) div 3) * 3 + 1 div 3)))"
    by (rule legality_characterization[OF w, THEN conjunct1]) simp_all
  moreover have "board subgrid_race_end ! nat 1 ! nat 1 = 0" "next_subgrid subgrid_race_end = None"
    "subgrid_wins subgrid_race_end ! 0 = 2"
    by code_simp+
  ultimately show ?thesis using w by simp
qed

subsection \<open>C7: the overall win is read from the cells\<close>

text \<open>
  C7: the overall win check for a player succeeds if and only if one of the nine rows, the
  nine columns, the main diagonal or the anti-diagonal of the 9x9 grid consists of that
  player's mark only; the subgrid statuses play no part; when the check succeeds the
  overall winner is that player.
\<close>

theorem overall_win_on_raw_cells:
  assumes "wf_board b"
  shows "fst (check_winner b player) = Inr (wins (board b) 9 player) \<and>
         (wins (board b) 9 player \<longrightarrow> overall_winner (snd (check_winner b player)) = player) \<and>
         fst (check_winner (b\<lparr>subgrid_wins := w\<rparr>) player) = fst (check_winner b player)"
proof -
  have "wf_board (b\<lparr>subgrid_wins := w\<rparr>) \<or> fst (check_winner (b\<lparr>subgrid_wins := w\<rparr>) player) = fst (check_winner b player)"
    by (simp add: check_winner_def split: sum.splits bool.splits)
  then show ?thesis
    by (auto simp: check_winner_in_range[OF assms] check_winner_in_range)
qed

text \<open>C7, witness: at the end of \<open>line_race\<close> PlayerOne holds row 1.\<close>

theorem overall_win_on_raw_cells_witness:
  "wf_board line_race_end \<and>
   wins (board line_race_end) 9 1 \<and>
   fst (check_winner line_race_end 1) = Inr True \<and>
   overall_winner (snd (check_winner line_race_end 1)) = 1"
proof -
  have w: "wf_board line_race_end" by (rule wf_concrete(4))
  have l: "wins (board line_race_end) 9 1" by code_simp
  from overall_win_on_raw_cells[OF w, of 1] l w show ?thesis by simp
qed

subsection \<open>C8: the two entry points\<close>

text \<open>
  C8: for a subgrid index \<open>s\<close> and a local index \<open>f\<close> in \<open>[0, 9)\<close> and any value,
  \<open>update_cell_in_subgrid(s, f, v)\<close> returns the same result and the same state as
  \<open>update_cell(g, v)\<close>, where \<open>g\<close> is the flat index of the global position
  \<open>((s div 3) * 3 + f div 3, (s mod 3) * 3 + f mod 3)\<close>.
\<close>

theorem dual_entry_point_equivalence:
  assumes "0 \<le> s" "s < 9" "0 \<le> f" "f < 9"
  shows "update_cell_in_subgrid b s f val =
           update_cell b (((s div 3) * 3 + f div 3) * 9 + ((s mod 3) * 3 + f mod 3)) val"
proof -
  note g = global_position[OF assms]
  note i = flat_index[OF g(1-4)]
  show ?thesis
    unfolding update_cell_in_subgrid_def update_cell_def index_to_position_def Let_def prod.case
      i(3,4) g(5)
    using assms i(1,2) by simp
qed

text \<open>C8, witness: subgrid 4, local index 5 is flat index 41.\<close>

theorem dual_entry_point_equivalence_witness:
  "(0::int) \<le> 4 \<and> (4::int) < 9 \<and> (0::int) \<le> 5 \<and> (5::int) < 9 \<and>
   update_cell_in_subgrid init 4 5 1 = update_cell init 41 1"
  using dual_entry_point_equivalence[of 4 5 init 1] by simp

subsection \<open>C9: a call with the value 0\<close>

text \<open>
  C9: for a flat index in \<open>[0, 81)\<close> whose cell is Empty and allowed by the constraint,
  \<open>update_cell(index, 0)\<close> succeeds, leaves every cell as it was, and sets the next
  constraint from the local position of the cell.
\<close>

theorem empty_valued_pass:
  assumes "wf_board b" "0 \<le> index" "index < 81"
    and "board b ! nat (index div 9) ! nat (index mod 9) = 0"
    and "next_subgrid b = None \<or>
         next_subgrid b = Some ((index div 9 div 3) * 3 + index mod 9 div 3)"
  shows "fst (update_cell b index 0) = Inr () \<and>
         board (snd (update_cell b index 0)) = board b \<and>
         next_subgrid (snd (update_cell b index 0)) =
           (let nxt = ((index div 9) mod 3) * 3 + (index mod 9) mod 3
            in if is_subgrid_full (snd (update_cell b index 0)) nxt \<or>
                  subgrid_wins (snd (update_cell b index 0)) ! nat nxt \<noteq> 0
               then None else Some nxt)"
proof -
  have l: "legal b (index div 9) (index mod 9)" using assms(4,5) by (simp add: legal_def)
  have eq: "update_cell b index 0 = (Inr (), after_move b (index div 9) (index mod 9) 0)"
    using l by (simp add: update_cell_in_range[OF assms(1-3)])
  have "(board b)[nat (index div 9) := (board b ! nat (index div 9))[nat (index mod 9) := 0]] = board b"
    using assms(4) by (metis list_update_id)
  then show ?thesis
    unfolding eq by (simp add: board_after_move next_subgrid_after_move)
qed

text \<open>
  C9, witness: on the initial board the value 0 at the centre cell (flat index 40) places
  no mark and changes the constraint from Unconstrained to Forced(4).
\<close>

theorem empty_valued_pass_witness:
  "wf_board init \<and> (0::int) \<le> 40 \<and> (40::int) < 81 \<and>
   next_subgrid init = None \<and>
   fst (update_cell init 40 0) = Inr () \<and>
   board (snd (update_cell init 40 0)) = board init \<and>
   next_subgrid (snd (update_cell init 40 0)) = Some 4"
proof -
  have w: "wf_board init" by (rule wf_concrete(1))
  have c: "board init ! nat (40 div 9) ! nat (40 mod 9) = 0" "next_subgrid init = None"
    by code_simp+
  have n: "next_subgrid (snd (update_cell init 40 0)) = Some 4" by code_simp
  have "fst (update_cell init 40 0) = Inr () \<and> board (snd (update_cell init 40 0)) = board init"
    using empty_valued_pass[OF w _ _ c(1), of] c(2) by simp
  with w c(2) n show ?thesis by simp
qed

subsection \<open>C10: \<open>set_subgrid\<close>\<close>




end
